theory Spec2Isabelle
  imports Main
begin

section \<open>The task manager backend: data shapes\<close>

text \<open>
  The backend keeps one table of tasks and serves five request handlers over it
  (\<^verbatim>\<open>backend/app/routes.py\<close>), each inside a session that \<^verbatim>\<open>get_db\<close>
  (\<^verbatim>\<open>backend/app/db.py\<close>) opens for the request and closes after it.
  Python's \<^verbatim>\<open>int\<close> is \<^typ>\<open>int\<close>, \<^verbatim>\<open>str\<close> is \<^typ>\<open>string\<close>, and
  \<^verbatim>\<open>None\<close> in a nullable position is \<^term>\<open>None\<close>.
\<close>

text \<open>
  Modelled from the spec: the shapes \<^verbatim>\<open>Task\<close>, \<^verbatim>\<open>TaskCreate\<close> and \<^verbatim>\<open>TaskUpdate\<close> of
  \<^verbatim>\<open>app/models.py\<close>, which the handlers import. A task is
  \<^verbatim>\<open>{id: integer, title: string, description: string|null, completed: boolean}\<close>.
\<close>

record Task =
  task_id :: int
  title :: string
  description :: "string option"
  completed :: bool

text \<open>
  Modelled from the spec: the JSON body of a create request,
  \<^verbatim>\<open>{title, description?, completed?}\<close>, before it is validated. A key that is missing
  is \<^term>\<open>None\<close>.
\<close>

record CreateBody =
  body_title :: "string option"
  body_description :: "string option"
  body_completed :: "bool option"

text \<open>Modelled from the spec: the validated shape \<^verbatim>\<open>TaskCreate\<close> that \<^verbatim>\<open>create_task\<close> receives.\<close>

record TaskCreate =
  create_title :: string
  create_description :: "string option"
  create_completed :: bool

text \<open>
  Modelled from the spec: the shape \<^verbatim>\<open>TaskUpdate\<close>, \<^verbatim>\<open>{title?, description?, completed?}\<close>.
  The outer \<^term>\<open>None\<close> is a field the request did not set; a field that is set carries a
  value of its column (a text, a text or null, a boolean). A value that the column does not
  admit makes the commit raise, which is the fault \<open>AtCommit\<close> below. The spec names no
  rule by which an update body is rejected, so the update endpoint takes the shape as it is.
\<close>

record TaskUpdate =
  update_title :: "string option"
  update_description :: "string option option"
  update_completed :: "bool option"

section \<open>Storage: the table and the session\<close>

text \<open>
  The table is the list of its rows in storage order. Every storage call of a handler may
  raise; \<open>fault\<close> names the call that raises while one request is served
  (\<open>NoFault\<close>: none does).
\<close>

datatype fault = NoFault | AtQuery | AtCommit | AtRefresh

datatype storage_exception = StorageError | OverflowError

datatype http_error =
    HTTP_404_NOT_FOUND
  | HTTP_500_INTERNAL_SERVER_ERROR
  | Validation_Error

text \<open>
  The unit of work of a session: an object added as new, a loaded object written to, an
  object marked for deletion. Nothing reaches the table before the commit.
\<close>

datatype change =
    Insert string "string option" bool
  | Modify Task
  | Remove int

record Session =
  store :: "Task list"
  pending :: "change list"

text \<open>\<^verbatim>\<open>get_db\<close>: a fresh session on the table; \<^verbatim>\<open>db.close()\<close> drops what was not committed.\<close>

definition SessionLocal :: "Task list \<Rightarrow> Session" where
  "SessionLocal rows = \<lparr>store = rows, pending = []\<rparr>"

definition db_close :: "Session \<Rightarrow> Task list" where
  "db_close db = store db"

definition get_db :: "(Session \<Rightarrow> 'a \<times> Session) \<Rightarrow> Task list \<Rightarrow> 'a \<times> Task list" where
  "get_db handler rows = (case handler (SessionLocal rows) of (r, db) \<Rightarrow> (r, db_close db))"

text \<open>\<^verbatim>\<open>db.query(TaskModel).all()\<close> and \<^verbatim>\<open>db.query(TaskModel).filter(TaskModel.id == i).first()\<close>.
  The session does not autoflush (\<^verbatim>\<open>autoflush=False\<close>): a query reads the table.\<close>

definition query_all :: "fault \<Rightarrow> Session \<Rightarrow> storage_exception + Task list" where
  "query_all f db = (if f = AtQuery then Inl StorageError else Inr (store db))"

text \<open>
  The id of a request is a Python \<^verbatim>\<open>int\<close> of any size; the id column holds 64-bit signed
  integers. An id outside that range cannot be bound to the query: the driver raises
  \<^verbatim>\<open>OverflowError\<close> and there is no answer from the table. Every row has an id of the
  column, so an id that has a row is in range, and the case arises among the ids without a
  row only: the lookup raises for an id that is out of range and finds no row.
\<close>

definition sqlite_integer :: "int \<Rightarrow> bool" where
  "sqlite_integer i \<longleftrightarrow> - (2 ^ 63) \<le> i \<and> i < 2 ^ 63"

definition query_first :: "fault \<Rightarrow> int \<Rightarrow> Session \<Rightarrow> storage_exception + Task option" where
  "query_first f i db =
     (if f = AtQuery then Inl StorageError
      else case find (\<lambda>t. task_id t = i) (store db) of
             Some t \<Rightarrow> Inr (Some t)
           | None \<Rightarrow> if sqlite_integer i then Inr None else Inl OverflowError)"

text \<open>
  The storage assigns the id of a new row: SQLite's rule for an integer primary key, one more
  than the largest id of the table, and 1 on an empty table.
\<close>

definition next_id :: "Task list \<Rightarrow> int" where
  "next_id rows = (if rows = [] then 1 else Max (set (map task_id rows)) + 1)"

fun flush :: "change \<Rightarrow> Task list \<Rightarrow> Task list" where
  "flush (Insert ti de co) rows =
     rows @ [\<lparr>task_id = next_id rows, title = ti, description = de, completed = co\<rparr>]"
| "flush (Modify t) rows = map (\<lambda>r. if task_id r = task_id t then t else r) rows"
| "flush (Remove i) rows = filter (\<lambda>r. task_id r \<noteq> i) rows"

definition db_add :: "change \<Rightarrow> Session \<Rightarrow> Session" where
  "db_add c db = db\<lparr>pending := pending db @ [c]\<rparr>"

definition db_delete :: "Task \<Rightarrow> Session \<Rightarrow> Session" where
  "db_delete t db = db\<lparr>pending := pending db @ [Remove (task_id t)]\<rparr>"

text \<open>\<^verbatim>\<open>db.commit()\<close> writes the whole unit of work or, when it raises, none of it.\<close>

definition db_commit :: "fault \<Rightarrow> Session \<Rightarrow> storage_exception + Session" where
  "db_commit f db =
     (if f = AtCommit then Inl StorageError
      else Inr \<lparr>store = fold flush (pending db) (store db), pending = []\<rparr>)"

definition db_rollback :: "Session \<Rightarrow> Session" where
  "db_rollback db = db\<lparr>pending := []\<rparr>"

text \<open>\<^verbatim>\<open>db.refresh(obj)\<close> reads the row of the object's primary key again.\<close>

definition db_refresh :: "fault \<Rightarrow> int \<Rightarrow> Session \<Rightarrow> storage_exception + Task" where
  "db_refresh f i db =
     (if f = AtRefresh then Inl StorageError
      else case find (\<lambda>t. task_id t = i) (store db) of
             None \<Rightarrow> Inl StorageError
           | Some t \<Rightarrow> Inr t)"

section \<open>The handlers of \<^verbatim>\<open>routes.py\<close>\<close>

definition get_tasks :: "fault \<Rightarrow> Session \<Rightarrow> (http_error + Task list) \<times> Session" where
  "get_tasks f db =
     (case query_all f db of
        Inr tasks \<Rightarrow> (Inr tasks, db)
      | Inl e \<Rightarrow> (Inl HTTP_500_INTERNAL_SERVER_ERROR, db))"

definition get_task :: "fault \<Rightarrow> int \<Rightarrow> Session \<Rightarrow> (http_error + Task) \<times> Session" where
  "get_task f i db =
     (case query_first f i db of
        Inr None \<Rightarrow> (Inl HTTP_404_NOT_FOUND, db)
      | Inr (Some task) \<Rightarrow> (Inr task, db)
      | Inl e \<Rightarrow> (Inl HTTP_500_INTERNAL_SERVER_ERROR, db))"

text \<open>
  \<^verbatim>\<open>create_task\<close>: the new object has no id before the flush inside the commit gives it the
  next one of the table; the refresh reads the row of that id.
\<close>

definition create_task :: "fault \<Rightarrow> TaskCreate \<Rightarrow> Session \<Rightarrow> (http_error + Task) \<times> Session" where
  "create_task f task_data db =
     (let new_task = Insert (create_title task_data) (create_description task_data)
                       (create_completed task_data);
          db1 = db_add new_task db
      in case db_commit f db1 of
           Inl e \<Rightarrow> (Inl HTTP_500_INTERNAL_SERVER_ERROR, db_rollback db1)
         | Inr db2 \<Rightarrow>
             (case db_refresh f (next_id (store db1)) db2 of
                Inl e \<Rightarrow> (Inl HTTP_500_INTERNAL_SERVER_ERROR, db_rollback db2)
              | Inr t \<Rightarrow> (Inr t, db2)))"

text \<open>
  \<^verbatim>\<open>task_update.dict(exclude_unset=True)\<close>: the fields the request set, in the order of the
  shape, each with its value; \<^verbatim>\<open>setattr(db_task, field, value)\<close> for one of them.
\<close>

datatype field_value =
    Title_value string
  | Description_value "string option"
  | Completed_value bool

definition dict_exclude_unset :: "TaskUpdate \<Rightarrow> field_value list" where
  "dict_exclude_unset u =
     (case update_title u of None \<Rightarrow> [] | Some v \<Rightarrow> [Title_value v]) @
     (case update_description u of None \<Rightarrow> [] | Some v \<Rightarrow> [Description_value v]) @
     (case update_completed u of None \<Rightarrow> [] | Some v \<Rightarrow> [Completed_value v])"

fun setattr :: "field_value \<Rightarrow> Task \<Rightarrow> Task" where
  "setattr (Title_value v) t = t\<lparr>title := v\<rparr>"
| "setattr (Description_value v) t = t\<lparr>description := v\<rparr>"
| "setattr (Completed_value v) t = t\<lparr>completed := v\<rparr>"

definition update_task ::
  "fault \<Rightarrow> int \<Rightarrow> TaskUpdate \<Rightarrow> Session \<Rightarrow> (http_error + Task) \<times> Session" where
  "update_task f i task_update db =
     (case query_first f i db of
        Inl e \<Rightarrow> (Inl HTTP_500_INTERNAL_SERVER_ERROR, db_rollback db)
      | Inr None \<Rightarrow> (Inl HTTP_404_NOT_FOUND, db)
      | Inr (Some db_task) \<Rightarrow>
          (let update_data = dict_exclude_unset task_update;
               db_task' = fold setattr update_data db_task;
               db1 = db_add (Modify db_task') db
           in case db_commit f db1 of
                Inl e \<Rightarrow> (Inl HTTP_500_INTERNAL_SERVER_ERROR, db_rollback db1)
              | Inr db2 \<Rightarrow>
                  (case db_refresh f (task_id db_task') db2 of
                     Inl e \<Rightarrow> (Inl HTTP_500_INTERNAL_SERVER_ERROR, db_rollback db2)
                   | Inr t \<Rightarrow> (Inr t, db2))))"

definition delete_task :: "fault \<Rightarrow> int \<Rightarrow> Session \<Rightarrow> (http_error + unit) \<times> Session" where
  "delete_task f i db =
     (case query_first f i db of
        Inl e \<Rightarrow> (Inl HTTP_500_INTERNAL_SERVER_ERROR, db_rollback db)
      | Inr None \<Rightarrow> (Inl HTTP_404_NOT_FOUND, db)
      | Inr (Some db_task) \<Rightarrow>
          (let db1 = db_delete db_task db
           in case db_commit f db1 of
                Inl e \<Rightarrow> (Inl HTTP_500_INTERNAL_SERVER_ERROR, db_rollback db1)
              | Inr db2 \<Rightarrow> (Inr (), db2)))"

section \<open>The endpoints\<close>

text \<open>
  Modelled from the spec: the validation of a create body by the shape \<^verbatim>\<open>TaskCreate\<close>
  (\<^verbatim>\<open>app/models.py\<close>): the title is required and rejected if empty or missing, description
  is optional, completed is optional and defaults to false.
\<close>

definition validate_TaskCreate :: "CreateBody \<Rightarrow> http_error + TaskCreate" where
  "validate_TaskCreate body =
     (case body_title body of
        None \<Rightarrow> Inl Validation_Error
      | Some ti \<Rightarrow>
          if ti = [] then Inl Validation_Error
          else Inr \<lparr>create_title = ti,
                    create_description = body_description body,
                    create_completed = (case body_completed body of None \<Rightarrow> False | Some b \<Rightarrow> b)\<rparr>)"

datatype request =
    GET_tasks
  | GET_task int
  | POST_tasks CreateBody
  | PUT_task int TaskUpdate
  | DELETE_task int

datatype response =
    Task_list "Task list"
  | One_task Task
  | No_content

text \<open>One request served on the table: the body is validated, then the handler runs in a
  session of its own.\<close>

fun serve :: "fault \<Rightarrow> request \<Rightarrow> Task list \<Rightarrow> (http_error + response) \<times> Task list" where
  "serve f GET_tasks rows = apfst (map_sum (\<lambda>e. e) Task_list) (get_db (get_tasks f) rows)"
| "serve f (GET_task i) rows = apfst (map_sum (\<lambda>e. e) One_task) (get_db (get_task f i) rows)"
| "serve f (POST_tasks body) rows =
     (case validate_TaskCreate body of
        Inl e \<Rightarrow> (Inl e, rows)
      | Inr task_data \<Rightarrow>
          apfst (map_sum (\<lambda>e. e) One_task) (get_db (create_task f task_data) rows))"
| "serve f (PUT_task i task_update) rows =
     apfst (map_sum (\<lambda>e. e) One_task) (get_db (update_task f i task_update) rows)"
| "serve f (DELETE_task i) rows =
     apfst (map_sum (\<lambda>e. e) (\<lambda>_. No_content)) (get_db (delete_task f i) rows)"

section \<open>Sequences of requests\<close>

text \<open>Requests served one after the other, each with the storage call that fails for it:
  the table they leave, and what a client sees of them, request by request.\<close>

fun run :: "(fault \<times> request) list \<Rightarrow> Task list \<Rightarrow> Task list" where
  "run [] rows = rows"
| "run (fr # frs) rows = run frs (snd (serve (fst fr) (snd fr) rows))"

fun trace ::
  "(fault \<times> request) list \<Rightarrow> Task list \<Rightarrow> (request \<times> (http_error + response)) list" where
  "trace [] rows = []"
| "trace (fr # frs) rows =
     (snd fr, fst (serve (fst fr) (snd fr) rows)) # trace frs (snd (serve (fst fr) (snd fr) rows))"


text \<open>
  The specification of listing, in the spec's words: the tasks that were created and not
  deleted, each with the fields last written to it. It is read off what the client saw: a
  create that answered with a task writes the fields of its body under the id of the answer,
  an update that answered with a task overwrites the fields it supplies, a delete that
  succeeded removes the task, and a request that was answered with an error writes nothing.
\<close>

fun spec_written_step ::
  "request \<times> (http_error + response) \<Rightarrow> (int \<rightharpoonup> Task) \<Rightarrow> (int \<rightharpoonup> Task)" where
  "spec_written_step (POST_tasks body, Inr (One_task t)) m =
     (case body_title body of
        None \<Rightarrow> m
      | Some ti \<Rightarrow>
          m(task_id t \<mapsto> \<lparr>task_id = task_id t, title = ti, description = body_description body,
              completed = (case body_completed body of None \<Rightarrow> False | Some b \<Rightarrow> b)\<rparr>))"
| "spec_written_step (PUT_task i u, Inr (One_task t)) m =
     (case m i of
        None \<Rightarrow> m
      | Some old \<Rightarrow>
          m(i \<mapsto> \<lparr>task_id = i,
              title = (case update_title u of None \<Rightarrow> title old | Some v \<Rightarrow> v),
              description = (case update_description u of None \<Rightarrow> description old | Some v \<Rightarrow> v),
              completed = (case update_completed u of None \<Rightarrow> completed old | Some v \<Rightarrow> v)\<rparr>))"
| "spec_written_step (DELETE_task i, Inr No_content) m = m(i := None)"
| "spec_written_step other m = m"

definition spec_written :: "(request \<times> (http_error + response)) list \<Rightarrow> (int \<rightharpoonup> Task)" where
  "spec_written tr = fold spec_written_step tr Map.empty"

section \<open>What one request does to the table\<close>

text \<open>The row a create writes, and the object an update writes back.\<close>

definition new_row :: "Task list \<Rightarrow> TaskCreate \<Rightarrow> Task" where
  "new_row rows td = \<lparr>task_id = next_id rows, title = create_title td,
     description = create_description td, completed = create_completed td\<rparr>"

definition merged :: "TaskUpdate \<Rightarrow> Task \<Rightarrow> Task" where
  "merged u t = \<lparr>task_id = task_id t,
     title = (case update_title u of None \<Rightarrow> title t | Some v \<Rightarrow> v),
     description = (case update_description u of None \<Rightarrow> description t | Some v \<Rightarrow> v),
     completed = (case update_completed u of None \<Rightarrow> completed t | Some v \<Rightarrow> v)\<rparr>"

text \<open>Two rows, for the examples below.\<close>

definition milk :: Task where
  "milk = \<lparr>task_id = 1, title = ''Buy milk'', description = None, completed = False\<rparr>"

definition tea :: Task where
  "tea = \<lparr>task_id = 2, title = ''Tea'', description = Some ''green'', completed = True\<rparr>"

text \<open>A sequence of requests, some of them failing, that leaves the two rows.\<close>

definition some_requests :: "(fault \<times> request) list" where
  "some_requests =
    [(NoFault, POST_tasks \<lparr>body_title = Some ''Buy milk'', body_description = None,
        body_completed = None\<rparr>),
     (NoFault, POST_tasks \<lparr>body_title = Some [], body_description = None, body_completed = None\<rparr>),
     (AtCommit, POST_tasks \<lparr>body_title = Some ''Jam'', body_description = None,
        body_completed = None\<rparr>),
     (NoFault, POST_tasks \<lparr>body_title = Some ''Tee'', body_description = None,
        body_completed = Some True\<rparr>),
     (NoFault, PUT_task 2 \<lparr>update_title = Some ''Tea'', update_description = Some (Some ''green''),
        update_completed = None\<rparr>),
     (NoFault, POST_tasks \<lparr>body_title = Some ''Jam'', body_description = None,
        body_completed = None\<rparr>),
     (AtQuery, DELETE_task 3),
     (NoFault, DELETE_task 3),
     (NoFault, DELETE_task 7)]"

lemma find_task_id: "find (\<lambda>t. task_id t = i) rows = Some t \<Longrightarrow> t \<in> set rows \<and> task_id t = i"
  by (induction rows) (auto split: if_splits)

lemma find_task_none: "find (\<lambda>t. task_id t = i) rows = None \<longleftrightarrow> i \<notin> task_id ` set rows"
  by (induction rows) auto

lemma query_first_bind_first:
  assumes "\<forall>r \<in> set (store db). sqlite_integer (task_id r)"
  shows "query_first f i db =
     (if f = AtQuery then Inl StorageError
      else if \<not> sqlite_integer i then Inl OverflowError
      else Inr (find (\<lambda>t. task_id t = i) (store db)))"
proof (cases "find (\<lambda>t. task_id t = i) (store db)")
  case None
  then show ?thesis unfolding query_first_def by simp
next
  case (Some t)
  from find_task_id [OF Some] assms have "sqlite_integer i" by blast
  then show ?thesis unfolding query_first_def Some by simp
qed

lemma next_id_fresh: "next_id rows \<notin> task_id ` set rows"
proof
  assume a: "next_id rows \<in> task_id ` set rows"
  then have ne: "rows \<noteq> []" by auto
  from a have "next_id rows \<le> Max (set (map task_id rows))"
    by (intro Max_ge) auto
  with ne show False by (simp add: next_id_def)
qed

lemma find_append_fresh:
  "task_id t \<notin> task_id ` set rows \<Longrightarrow> find (\<lambda>r. task_id r = i) (rows @ [t]) =
     (if i = task_id t then Some t else find (\<lambda>r. task_id r = i) rows)"
  by (induction rows) auto

lemma find_distinct:
  "distinct (map task_id rows) \<Longrightarrow> t \<in> set rows \<Longrightarrow>
   find (\<lambda>r. task_id r = task_id t) rows = Some t"
  by (induction rows) (auto simp: image_iff)

lemma find_replace:
  "task_id t' = j \<Longrightarrow>
   find (\<lambda>r. task_id r = i) (map (\<lambda>r. if task_id r = j then t' else r) rows) =
     (if i = j then (case find (\<lambda>r. task_id r = j) rows of None \<Rightarrow> None | Some _ \<Rightarrow> Some t')
      else find (\<lambda>r. task_id r = i) rows)"
  by (induction rows) auto

lemma find_remove:
  "find (\<lambda>r. task_id r = i) (filter (\<lambda>r. task_id r \<noteq> j) rows) =
     (if i = j then None else find (\<lambda>r. task_id r = i) rows)"
  by (induction rows) auto

lemma fold_setattr: "fold setattr (dict_exclude_unset u) t = merged u t"
  by (simp add: dict_exclude_unset_def merged_def split: option.splits)

lemma task_id_merged: "task_id (merged u t) = task_id t"
  by (simp add: merged_def)

lemma get_tasks_rows:
  "get_db (get_tasks f) rows =
     (if f = AtQuery then (Inl HTTP_500_INTERNAL_SERVER_ERROR, rows) else (Inr rows, rows))"
  by (simp add: get_tasks_def get_db_def SessionLocal_def db_close_def query_all_def)

lemma get_task_rows:
  "get_db (get_task f i) rows =
     (if f = AtQuery then (Inl HTTP_500_INTERNAL_SERVER_ERROR, rows)
      else case find (\<lambda>t. task_id t = i) rows of
             None \<Rightarrow>
          (if sqlite_integer i then Inl HTTP_404_NOT_FOUND else Inl HTTP_500_INTERNAL_SERVER_ERROR, rows)
           | Some t \<Rightarrow> (Inr t, rows))"
  by (simp add: get_task_def get_db_def SessionLocal_def db_close_def query_first_def
      split: option.splits)

lemma create_task_rows:
  "get_db (create_task f td) rows =
     (if f = AtCommit then (Inl HTTP_500_INTERNAL_SERVER_ERROR, rows)
      else if f = AtRefresh then (Inl HTTP_500_INTERNAL_SERVER_ERROR, rows @ [new_row rows td])
      else (Inr (new_row rows td), rows @ [new_row rows td]))"
  using next_id_fresh [of rows]
  by (simp add: create_task_def get_db_def SessionLocal_def db_close_def db_add_def
      db_commit_def db_rollback_def db_refresh_def Let_def new_row_def find_append_fresh)

lemma update_task_rows:
  "get_db (update_task f i u) rows =
     (if f = AtQuery then (Inl HTTP_500_INTERNAL_SERVER_ERROR, rows)
      else case find (\<lambda>t. task_id t = i) rows of
        None \<Rightarrow>
          (if sqlite_integer i then Inl HTTP_404_NOT_FOUND else Inl HTTP_500_INTERNAL_SERVER_ERROR, rows)
      | Some t \<Rightarrow>
          if f = AtCommit then (Inl HTTP_500_INTERNAL_SERVER_ERROR, rows)
          else if f = AtRefresh then
            (Inl HTTP_500_INTERNAL_SERVER_ERROR,
             map (\<lambda>r. if task_id r = i then merged u t else r) rows)
          else (Inr (merged u t), map (\<lambda>r. if task_id r = i then merged u t else r) rows))"
proof (cases "find (\<lambda>t. task_id t = i) rows")
  case None
  show ?thesis
    unfolding update_task_def get_db_def SessionLocal_def db_close_def query_first_def
      db_rollback_def
    by (simp add: None)
next
  case (Some t)
  have ti: "task_id t = i" using Some by (rule find_task_id [THEN conjunct2])
  have m: "task_id (merged u t) = i" using ti by (simp add: merged_def)
  have r: "find (\<lambda>r. task_id r = i) (map (\<lambda>r. if task_id r = i then merged u t else r) rows)
    = Some (merged u t)"
    by (simp add: find_replace [OF m] Some)
  show ?thesis
    unfolding update_task_def get_db_def SessionLocal_def db_close_def query_first_def
      db_rollback_def db_add_def db_commit_def db_refresh_def Let_def fold_setattr
    by (simp add: Some m r)
qed

lemma delete_task_rows:
  "get_db (delete_task f i) rows =
     (if f = AtQuery then (Inl HTTP_500_INTERNAL_SERVER_ERROR, rows)
      else case find (\<lambda>t. task_id t = i) rows of
        None \<Rightarrow>
          (if sqlite_integer i then Inl HTTP_404_NOT_FOUND else Inl HTTP_500_INTERNAL_SERVER_ERROR, rows)
      | Some t \<Rightarrow>
          if f = AtCommit then (Inl HTTP_500_INTERNAL_SERVER_ERROR, rows)
          else (Inr (), filter (\<lambda>r. task_id r \<noteq> i) rows))"
proof (cases "find (\<lambda>t. task_id t = i) rows")
  case None
  show ?thesis
    unfolding delete_task_def get_db_def SessionLocal_def db_close_def query_first_def
      db_rollback_def
    by (simp add: None)
next
  case (Some t)
  have ti: "task_id t = i" using Some by (rule find_task_id [THEN conjunct2])
  show ?thesis
    unfolding delete_task_def get_db_def SessionLocal_def db_close_def query_first_def
      db_rollback_def db_delete_def db_commit_def Let_def
    by (simp add: Some ti)
qed

lemma find_some: "i \<in> task_id ` set rows \<Longrightarrow> \<exists>t. find (\<lambda>t. task_id t = i) rows = Some t"
  using find_task_none [of i rows] by (cases "find (\<lambda>t. task_id t = i) rows") auto

lemma length_remove:
  "distinct (map task_id rows) \<Longrightarrow> i \<in> task_id ` set rows \<Longrightarrow>
   Suc (length (filter (\<lambda>r. task_id r \<noteq> i) rows)) = length rows"
proof (induction rows)
  case Nil
  then show ?case by simp
next
  case (Cons r rows)
  show ?case
  proof (cases "task_id r = i")
    case True
    with Cons.prems have "i \<notin> task_id ` set rows" by auto
    then have "filter (\<lambda>r. task_id r \<noteq> i) rows = rows"
      by (induction rows) auto
    with True show ?thesis by simp
  next
    case False
    with Cons show ?thesis by auto
  qed
qed

lemma replace_by_row:
  assumes "distinct (map task_id rows)" and "t \<in> set rows"
  shows "map (\<lambda>r. if task_id r = task_id t then t' else r) rows
      = map (\<lambda>r. if r = t then t' else r) rows"
proof (rule map_cong [OF refl])
  fix r assume "r \<in> set rows"
  with assms have "task_id r = task_id t \<longleftrightarrow> r = t"
    by (auto simp: distinct_map dest: inj_onD)
  then show "(if task_id r = task_id t then t' else r) = (if r = t then t' else r)" by simp
qed

lemma serve_POST_rows:
  "serve f (POST_tasks body) rows =
     (case validate_TaskCreate body of
        Inl e \<Rightarrow> (Inl e, rows)
      | Inr td \<Rightarrow>
          if f = AtCommit then (Inl HTTP_500_INTERNAL_SERVER_ERROR, rows)
          else if f = AtRefresh then (Inl HTTP_500_INTERNAL_SERVER_ERROR, rows @ [new_row rows td])
          else (Inr (One_task (new_row rows td)), rows @ [new_row rows td]))"
  by (simp add: create_task_rows split: sum.splits)

lemma serve_PUT_rows:
  "serve f (PUT_task i u) rows =
     (if f = AtQuery then (Inl HTTP_500_INTERNAL_SERVER_ERROR, rows)
      else case find (\<lambda>t. task_id t = i) rows of
        None \<Rightarrow>
          (if sqlite_integer i then Inl HTTP_404_NOT_FOUND else Inl HTTP_500_INTERNAL_SERVER_ERROR, rows)
      | Some t \<Rightarrow>
          if f = AtCommit then (Inl HTTP_500_INTERNAL_SERVER_ERROR, rows)
          else if f = AtRefresh then
            (Inl HTTP_500_INTERNAL_SERVER_ERROR,
             map (\<lambda>r. if task_id r = i then merged u t else r) rows)
          else (Inr (One_task (merged u t)),
                map (\<lambda>r. if task_id r = i then merged u t else r) rows))"
  by (simp add: update_task_rows split: option.splits)

lemma serve_DELETE_rows:
  "serve f (DELETE_task i) rows =
     (if f = AtQuery then (Inl HTTP_500_INTERNAL_SERVER_ERROR, rows)
      else case find (\<lambda>t. task_id t = i) rows of
        None \<Rightarrow>
          (if sqlite_integer i then Inl HTTP_404_NOT_FOUND else Inl HTTP_500_INTERNAL_SERVER_ERROR, rows)
      | Some t \<Rightarrow>
          if f = AtCommit then (Inl HTTP_500_INTERNAL_SERVER_ERROR, rows)
          else (Inr No_content, filter (\<lambda>r. task_id r \<noteq> i) rows))"
  by (simp add: delete_task_rows split: option.splits)

lemma serve_GET_rows: "snd (serve f GET_tasks rows) = rows" "snd (serve f (GET_task i) rows) = rows"
  by (simp_all add: get_tasks_rows get_task_rows split: option.splits)

lemma failed_unchanged:
  "f \<noteq> AtRefresh \<Longrightarrow> fst (serve f r rows) = Inl e \<Longrightarrow> snd (serve f r rows) = rows"
proof (cases r)
  case GET_tasks
  then show ?thesis by (simp only: serve_GET_rows)
next
  case (GET_task i)
  then show ?thesis by (simp only: serve_GET_rows)
next
  case (POST_tasks body)
  assume "f \<noteq> AtRefresh" "fst (serve f r rows) = Inl e"
  then show ?thesis unfolding POST_tasks serve_POST_rows
    by (simp split: sum.splits if_splits)
next
  case (PUT_task i u)
  assume "f \<noteq> AtRefresh" "fst (serve f r rows) = Inl e"
  then show ?thesis unfolding PUT_task serve_PUT_rows
    by (simp split: option.splits if_splits)
next
  case (DELETE_task i)
  assume "f \<noteq> AtRefresh" "fst (serve f r rows) = Inl e"
  then show ?thesis unfolding DELETE_task serve_DELETE_rows
    by (simp split: option.splits if_splits)
qed


lemma serve_GET_tasks_eq:
  "serve f GET_tasks rows =
     (if f = AtQuery then (Inl HTTP_500_INTERNAL_SERVER_ERROR, rows)
      else (Inr (Task_list rows), rows))"
  by (simp add: get_tasks_rows)

lemma serve_GET_task_eq:
  "serve f (GET_task i) rows =
     (if f = AtQuery then (Inl HTTP_500_INTERNAL_SERVER_ERROR, rows)
      else case find (\<lambda>t. task_id t = i) rows of
             None \<Rightarrow>
          (if sqlite_integer i then Inl HTTP_404_NOT_FOUND else Inl HTTP_500_INTERNAL_SERVER_ERROR, rows)
           | Some t \<Rightarrow> (Inr (One_task t), rows))"
  by (simp add: get_task_rows split: option.splits)


lemma serve_distinct:
  assumes "distinct (map task_id rows)"
  shows "distinct (map task_id (snd (serve f r rows)))"
proof (cases r)
  case GET_tasks
  with assms show ?thesis by (simp only: serve_GET_rows)
next
  case (GET_task i)
  with assms show ?thesis by (simp only: serve_GET_rows)
next
  case (POST_tasks body)
  have "task_id (new_row rows td) \<notin> task_id ` set rows" for td
    using next_id_fresh [of rows] by (simp add: new_row_def)
  with assms show ?thesis unfolding POST_tasks serve_POST_rows
    by (simp split: sum.splits)
next
  case (PUT_task i u)
  show ?thesis
  proof (cases "find (\<lambda>t. task_id t = i) rows")
    case None
    from assms show ?thesis unfolding PUT_task serve_PUT_rows None by simp
  next
    case (Some t)
    have ti: "task_id t = i" using Some by (rule find_task_id [THEN conjunct2])
    have "map task_id (map (\<lambda>r. if task_id r = i then merged u t else r) rows) = map task_id rows"
      using ti by (induction rows) (auto simp: task_id_merged)
    with assms have "distinct (map task_id (map (\<lambda>r. if task_id r = i then merged u t else r) rows))"
      by (simp only:)
    with assms show ?thesis unfolding PUT_task serve_PUT_rows Some
      by (simp del: map_map)
  qed
next
  case (DELETE_task i)
  from assms have "distinct (map task_id (filter (\<lambda>r. task_id r \<noteq> i) rows))"
    by (simp add: distinct_map_filter)
  with assms show ?thesis unfolding DELETE_task serve_DELETE_rows
    by (cases "find (\<lambda>t. task_id t = i) rows") simp_all
qed


lemma run_distinct:
  "distinct (map task_id rows) \<Longrightarrow> distinct (map task_id (run frs rows))"
  by (induction frs arbitrary: rows) (simp_all add: serve_distinct)


lemma run_some_requests: "run some_requests [] = [milk, tea]"
  by (simp add: some_requests_def create_task_rows update_task_rows delete_task_rows
      validate_TaskCreate_def new_row_def merged_def next_id_def milk_def tea_def)

lemma validate_new_row:
  assumes "validate_TaskCreate body = Inr td"
  shows "\<exists>ti. body_title body = Some ti \<and>
      new_row rows td = \<lparr>task_id = next_id rows, title = ti, description = body_description body,
        completed = (case body_completed body of None \<Rightarrow> False | Some b \<Rightarrow> b)\<rparr>"
proof (cases "body_title body")
  case None
  with assms show ?thesis by (simp add: validate_TaskCreate_def)
next
  case (Some ti)
  with assms show ?thesis
    by (cases "ti = []") (auto simp: validate_TaskCreate_def new_row_def)
qed

lemma written_step_agrees:
  assumes f: "f \<noteq> AtRefresh"
    and m: "\<forall>j. m j = find (\<lambda>t. task_id t = j) rows"
  shows "spec_written_step (r, fst (serve f r rows)) m j
      = find (\<lambda>t. task_id t = j) (snd (serve f r rows))"
proof (cases r)
  case GET_tasks
  show ?thesis unfolding GET_tasks serve_GET_tasks_eq using m
    by (cases "f = AtQuery") simp_all
next
  case (GET_task i)
  show ?thesis
  proof (cases "find (\<lambda>t. task_id t = i) rows")
    case None
    show ?thesis unfolding GET_task serve_GET_task_eq None using m
      by (cases "f = AtQuery") simp_all
  next
    case (Some t)
    show ?thesis unfolding GET_task serve_GET_task_eq Some using m
      by (cases "f = AtQuery") simp_all
  qed
next
  case (POST_tasks body)
  show ?thesis
  proof (cases "validate_TaskCreate body")
    case (Inl e)
    show ?thesis unfolding POST_tasks serve_POST_rows Inl using m by simp
  next
    case (Inr td)
    from validate_new_row [OF Inr, of rows] obtain ti where ti: "body_title body = Some ti"
      and nr: "new_row rows td = \<lparr>task_id = next_id rows, title = ti,
        description = body_description body,
        completed = (case body_completed body of None \<Rightarrow> False | Some b \<Rightarrow> b)\<rparr>"
      by blast
    have fresh: "task_id (new_row rows td) \<notin> task_id ` set rows"
      using next_id_fresh [of rows] by (simp add: new_row_def)
    have id: "task_id (new_row rows td) = next_id rows" by (simp add: new_row_def)
    show ?thesis
    proof (cases "f = AtCommit")
      case True
      then show ?thesis unfolding POST_tasks serve_POST_rows Inr using m by simp
    next
      case False
      with f show ?thesis unfolding POST_tasks serve_POST_rows Inr
        using m by (simp add: find_append_fresh [OF fresh] ti id) (simp add: nr)
    qed
  qed
next
  case (PUT_task i u)
  show ?thesis
  proof (cases "find (\<lambda>t. task_id t = i) rows")
    case None
    show ?thesis unfolding PUT_task serve_PUT_rows None using m
      by (cases "f = AtQuery") simp_all
  next
    case (Some t)
    have ti: "task_id t = i" using Some by (rule find_task_id [THEN conjunct2])
    have mt: "task_id (merged u t) = i" using ti by (simp add: merged_def)
    have mi: "m i = Some t" using m Some by simp
    have mg: "\<lparr>task_id = i,
        title = (case update_title u of None \<Rightarrow> title t | Some v \<Rightarrow> v),
        description = (case update_description u of None \<Rightarrow> description t | Some v \<Rightarrow> v),
        completed = (case update_completed u of None \<Rightarrow> completed t | Some v \<Rightarrow> v)\<rparr> = merged u t"
      using ti by (simp add: merged_def)
    show ?thesis
    proof (cases "f = AtQuery \<or> f = AtCommit")
      case True
      then show ?thesis unfolding PUT_task serve_PUT_rows Some using m by auto
    next
      case False
      with f show ?thesis unfolding PUT_task serve_PUT_rows Some
        using m by (simp add: find_replace [OF mt] mi mg Some)
    qed
  qed
next
  case (DELETE_task i)
  show ?thesis
  proof (cases "find (\<lambda>t. task_id t = i) rows")
    case None
    show ?thesis unfolding DELETE_task serve_DELETE_rows None using m
      by (cases "f = AtQuery") simp_all
  next
    case (Some t)
    show ?thesis
    proof (cases "f = AtQuery \<or> f = AtCommit")
      case True
      then show ?thesis unfolding DELETE_task serve_DELETE_rows Some using m by auto
    next
      case False
      then show ?thesis unfolding DELETE_task serve_DELETE_rows Some
        using m by (simp add: find_remove)
    qed
  qed
qed

lemma written_run_agrees:
  "\<forall>fr \<in> set frs. fst fr \<noteq> AtRefresh \<Longrightarrow> \<forall>j. m j = find (\<lambda>t. task_id t = j) rows \<Longrightarrow>
   fold spec_written_step (trace frs rows) m j = find (\<lambda>t. task_id t = j) (run frs rows)"
proof (induction frs arbitrary: rows m j)
  case Nil
  then show ?case by simp
next
  case (Cons fr frs)
  from Cons.prems(1) have f: "fst fr \<noteq> AtRefresh" and fs: "\<forall>fr \<in> set frs. fst fr \<noteq> AtRefresh"
    by simp_all
  have "\<forall>j. spec_written_step (snd fr, fst (serve (fst fr) (snd fr) rows)) m j
      = find (\<lambda>t. task_id t = j) (snd (serve (fst fr) (snd fr) rows))"
    using written_step_agrees [OF f Cons.prems(2)] by blast
  from Cons.IH [OF fs this] show ?case by simp
qed

text \<open>
  The ids of the rows are ids of the column: from the empty table, a sequence of requests
  gives ids between 1 and its length. On such a table the lookup is the binding of the id,
  which raises outside the range, followed by the query (\<open>query_first_bind_first\<close>).
\<close>

lemma next_id_bounds:
  assumes "\<forall>r \<in> set rows. 1 \<le> task_id r \<and> task_id r \<le> n" and "0 \<le> n"
  shows "1 \<le> next_id rows \<and> next_id rows \<le> n + 1"
proof (cases "rows = []")
  case True
  with assms(2) show ?thesis by (simp add: next_id_def)
next
  case False
  then have "Max (set (map task_id rows)) \<in> set (map task_id rows)"
    by (intro Max_in) simp_all
  then obtain r where "r \<in> set rows" and "Max (set (map task_id rows)) = task_id r" by auto
  with assms(1) False show ?thesis by (auto simp: next_id_def)
qed

lemma serve_ids_bounded:
  assumes b: "\<forall>r \<in> set rows. 1 \<le> task_id r \<and> task_id r \<le> n" and n: "0 \<le> n"
  shows "\<forall>r \<in> set (snd (serve f q rows)). 1 \<le> task_id r \<and> task_id r \<le> n + 1"
proof -
  from b have b': "\<forall>r \<in> set rows. 1 \<le> task_id r \<and> task_id r \<le> n + 1" by auto
  show ?thesis
  proof (cases q)
    case GET_tasks
    show ?thesis unfolding GET_tasks serve_GET_rows by (rule b')
  next
    case (GET_task i)
    show ?thesis unfolding GET_task serve_GET_rows by (rule b')
  next
    case (POST_tasks body)
    show ?thesis
    proof (cases "validate_TaskCreate body")
      case (Inl e)
      from b' show ?thesis unfolding POST_tasks serve_POST_rows Inl by simp
    next
      case (Inr td)
      from next_id_bounds [OF b n]
      have "1 \<le> task_id (new_row rows td) \<and> task_id (new_row rows td) \<le> n + 1"
        by (simp add: new_row_def)
      with b' show ?thesis unfolding POST_tasks serve_POST_rows Inr by simp
    qed
  next
    case (PUT_task i u)
    show ?thesis
    proof (cases "find (\<lambda>t. task_id t = i) rows")
      case None
      from b' show ?thesis unfolding PUT_task serve_PUT_rows None by simp
    next
      case (Some t)
      have "t \<in> set rows" using Some by (rule find_task_id [THEN conjunct1])
      with b' have "1 \<le> task_id (merged u t) \<and> task_id (merged u t) \<le> n + 1"
        by (simp add: task_id_merged)
      with b' show ?thesis unfolding PUT_task serve_PUT_rows Some by auto
    qed
  next
    case (DELETE_task i)
    show ?thesis
    proof (cases "find (\<lambda>t. task_id t = i) rows")
      case None
      from b' show ?thesis unfolding DELETE_task serve_DELETE_rows None by simp
    next
      case (Some t)
      from b' show ?thesis unfolding DELETE_task serve_DELETE_rows Some by simp
    qed
  qed
qed

lemma run_ids_bounded:
  "\<forall>r \<in> set rows. 1 \<le> task_id r \<and> task_id r \<le> n \<Longrightarrow> 0 \<le> n \<Longrightarrow>
   \<forall>r \<in> set (run frs rows). 1 \<le> task_id r \<and> task_id r \<le> n + int (length frs)"
proof (induction frs arbitrary: rows n)
  case Nil
  then show ?case by simp
next
  case (Cons fr frs)
  have "\<forall>r \<in> set (snd (serve (fst fr) (snd fr) rows)). 1 \<le> task_id r \<and> task_id r \<le> n + 1"
    using Cons.prems by (rule serve_ids_bounded)
  moreover from Cons.prems(2) have "0 \<le> n + 1" by simp
  ultimately have "\<forall>r \<in> set (run frs (snd (serve (fst fr) (snd fr) rows))).
      1 \<le> task_id r \<and> task_id r \<le> n + 1 + int (length frs)"
    by (rule Cons.IH)
  then show ?case by (simp only: run.simps list.size of_nat_Suc length_Cons) (simp add: algebra_simps)
qed

lemma run_ids_in_column:
  assumes "int (length frs) < 2 ^ 63"
  shows "\<forall>r \<in> set (run frs []). sqlite_integer (task_id r)"
proof
  fix r assume "r \<in> set (run frs [])"
  moreover have "\<forall>r \<in> set (run frs []). 1 \<le> task_id r \<and> task_id r \<le> 0 + int (length frs)"
    by (rule run_ids_bounded) simp_all
  ultimately have "1 \<le> task_id r \<and> task_id r \<le> int (length frs)" by simp
  with assms show "sqlite_integer (task_id r)" by (simp add: sqlite_integer_def)
qed

section \<open>Reading\<close>

text \<open>
  C10. The read operations, list and get-one, never modify the persisted state: whatever
  the table, the id and the storage call that fails, the table after the request is the
  table before it, whether the request succeeds, is not found or is a server error.
\<close>

theorem reads_leave_table:
  "snd (serve f GET_tasks rows) = rows \<and> snd (serve f (GET_task i) rows) = rows"
  by (simp add: get_tasks_rows get_task_rows split: option.splits)

text \<open>
  Get-one on the ids of the column: it returns the persisted task whose id it is when there
  is one (the row itself when ids are unique) and fails with not-found when no persisted
  task has the id. For an id outside the column's range, which no task has, the lookup
  raises and the answer is the server error.
\<close>

lemma get_task_by_id:
  "(i \<in> task_id ` set rows \<longrightarrow>
      (\<exists>t \<in> set rows. task_id t = i \<and> serve NoFault (GET_task i) rows = (Inr (One_task t), rows))) \<and>
   (distinct (map task_id rows) \<and> t \<in> set rows \<longrightarrow>
      serve NoFault (GET_task (task_id t)) rows = (Inr (One_task t), rows)) \<and>
   (i \<notin> task_id ` set rows \<and> sqlite_integer i \<longrightarrow>
      serve NoFault (GET_task i) rows = (Inl HTTP_404_NOT_FOUND, rows)) \<and>
   (i \<notin> task_id ` set rows \<and> \<not> sqlite_integer i \<longrightarrow>
      serve NoFault (GET_task i) rows = (Inl HTTP_500_INTERNAL_SERVER_ERROR, rows))"
proof (intro conjI impI)
  assume "i \<in> task_id ` set rows"
  then obtain t where f: "find (\<lambda>t. task_id t = i) rows = Some t"
    using find_some by blast
  from find_task_id [OF f] f
  show "\<exists>t \<in> set rows. task_id t = i \<and> serve NoFault (GET_task i) rows = (Inr (One_task t), rows)"
    by (auto simp: get_task_rows)
next
  assume "distinct (map task_id rows) \<and> t \<in> set rows"
  then have "find (\<lambda>r. task_id r = task_id t) rows = Some t"
    by (simp add: find_distinct)
  then show "serve NoFault (GET_task (task_id t)) rows = (Inr (One_task t), rows)"
    by (simp add: get_task_rows)
next
  assume a: "i \<notin> task_id ` set rows \<and> sqlite_integer i"
  then have "find (\<lambda>t. task_id t = i) rows = None"
    by (simp add: find_task_none)
  with a show "serve NoFault (GET_task i) rows = (Inl HTTP_404_NOT_FOUND, rows)"
    by (simp add: get_task_rows)
next
  assume a: "i \<notin> task_id ` set rows \<and> \<not> sqlite_integer i"
  then have "find (\<lambda>t. task_id t = i) rows = None"
    by (simp add: find_task_none)
  with a show "serve NoFault (GET_task i) rows = (Inl HTTP_500_INTERNAL_SERVER_ERROR, rows)"
    by (simp add: get_task_rows)
qed

lemma get_task_by_id_example:
  "serve NoFault (GET_task 2) [milk, tea] = (Inr (One_task tea), [milk, tea]) \<and>
   serve NoFault (GET_task 3) [milk, tea] = (Inl HTTP_404_NOT_FOUND, [milk, tea])"
  using get_task_by_id [of 3 "[milk, tea]" tea]
  by (simp add: sqlite_integer_def milk_def tea_def)

text \<open>
  C4. For every id, get-one returns the persisted task whose id it is when there is one and
  fails with not-found when no persisted task has that id. The code misses the second half
  at an id outside the 64-bit range of the id column: no persisted task has the id
  \<open>2 ^ 63\<close>, the lookup raises with no storage failure, and \<^verbatim>\<open>get_task\<close> answers with the
  server error where the claim and its own not-found branch say not-found.
\<close>

theorem get_task_out_of_range:
  "2 ^ 63 \<notin> task_id ` set [milk, tea] \<and>
   serve NoFault (GET_task (2 ^ 63)) [milk, tea] = (Inl HTTP_500_INTERNAL_SERVER_ERROR, [milk, tea])"
  by (simp add: get_task_rows sqlite_integer_def milk_def tea_def)

section \<open>Creating\<close>

text \<open>
  C2. A create request whose title is empty or missing is rejected before any storage
  access: the answer is the validation error whichever storage call would fail, and the
  table is unchanged, no row is inserted.
\<close>

theorem create_rejects_empty_title:
  "body_title body = None \<or> body_title body = Some [] \<Longrightarrow>
   serve f (POST_tasks body) rows = (Inl Validation_Error, rows)"
  by (auto simp: validate_TaskCreate_def)

theorem create_rejects_empty_title_witness:
  "serve AtCommit (POST_tasks \<lparr>body_title = Some [], body_description = Some ''x'',
      body_completed = None\<rparr>) [milk] = (Inl Validation_Error, [milk])"
  using create_rejects_empty_title [of "\<lparr>body_title = Some [], body_description = Some ''x'',
      body_completed = None\<rparr>" AtCommit "[milk]"]
  by simp

text \<open>
  C7. A valid create request inserts exactly one row, at the end of the table; the id of
  the row is the one the storage assigns, which no row of the table had; the answer is that
  row, with the assigned id and the title and description of the request; and when the request
  has no \<^verbatim>\<open>completed\<close>, the flag stored and returned is false.
\<close>

theorem create_task_inserts_one:
  "body_title body = Some ti \<Longrightarrow> ti \<noteq> [] \<Longrightarrow>
   serve NoFault (POST_tasks body) rows =
     (Inr (One_task \<lparr>task_id = next_id rows, title = ti, description = body_description body,
        completed = (case body_completed body of None \<Rightarrow> False | Some b \<Rightarrow> b)\<rparr>),
      rows @ [\<lparr>task_id = next_id rows, title = ti, description = body_description body,
        completed = (case body_completed body of None \<Rightarrow> False | Some b \<Rightarrow> b)\<rparr>]) \<and>
   next_id rows \<notin> task_id ` set rows \<and>
   (body_completed body = None \<longrightarrow>
      (\<exists>t. fst (serve NoFault (POST_tasks body) rows) = Inr (One_task t) \<and> \<not> completed t \<and>
           t \<in> set (snd (serve NoFault (POST_tasks body) rows))))"
proof -
  assume b: "body_title body = Some ti" and ne: "ti \<noteq> []"
  have a: "serve NoFault (POST_tasks body) rows =
     (Inr (One_task \<lparr>task_id = next_id rows, title = ti, description = body_description body,
        completed = (case body_completed body of None \<Rightarrow> False | Some b \<Rightarrow> b)\<rparr>),
      rows @ [\<lparr>task_id = next_id rows, title = ti, description = body_description body,
        completed = (case body_completed body of None \<Rightarrow> False | Some b \<Rightarrow> b)\<rparr>])"
    using b ne by (simp add: validate_TaskCreate_def create_task_rows new_row_def)
  show ?thesis
  proof (intro conjI impI)
    show "serve NoFault (POST_tasks body) rows =
     (Inr (One_task \<lparr>task_id = next_id rows, title = ti, description = body_description body,
        completed = (case body_completed body of None \<Rightarrow> False | Some b \<Rightarrow> b)\<rparr>),
      rows @ [\<lparr>task_id = next_id rows, title = ti, description = body_description body,
        completed = (case body_completed body of None \<Rightarrow> False | Some b \<Rightarrow> b)\<rparr>])"
      by (rule a)
    show "next_id rows \<notin> task_id ` set rows" by (rule next_id_fresh)
    assume "body_completed body = None"
    then show "\<exists>t. fst (serve NoFault (POST_tasks body) rows) = Inr (One_task t) \<and> \<not> completed t \<and>
           t \<in> set (snd (serve NoFault (POST_tasks body) rows))"
      by (simp only: a fst_conv snd_conv) simp
  qed
qed

theorem create_task_inserts_one_witness:
  "serve NoFault (POST_tasks \<lparr>body_title = Some ''Tea'', body_description = Some ''green'',
      body_completed = None\<rparr>) [milk]
    = (Inr (One_task \<lparr>task_id = 2, title = ''Tea'', description = Some ''green'', completed = False\<rparr>),
       [milk, \<lparr>task_id = 2, title = ''Tea'', description = Some ''green'', completed = False\<rparr>])"
  using create_task_inserts_one [of "\<lparr>body_title = Some ''Tea'', body_description = Some ''green'',
      body_completed = None\<rparr>" "''Tea''" "[milk]"]
  by (simp add: next_id_def milk_def)

section \<open>Deleting\<close>

text \<open>
  Delete on the ids of the column: deleting the task of an id that exists succeeds and
  removes the rows of that id and no other (exactly one row when ids are unique), so that
  get-one for the id is not-found afterwards; deleting an id of the column that no persisted
  task has fails with not-found and leaves the table unchanged. For an id outside the
  column's range the lookup raises and the answer is the server error, the table unchanged.
\<close>

lemma delete_task_by_id:
  "(i \<in> task_id ` set rows \<longrightarrow>
      serve NoFault (DELETE_task i) rows = (Inr No_content, filter (\<lambda>r. task_id r \<noteq> i) rows) \<and>
      (sqlite_integer i \<longrightarrow>
         fst (serve NoFault (GET_task i) (snd (serve NoFault (DELETE_task i) rows)))
           = Inl HTTP_404_NOT_FOUND) \<and>
      (distinct (map task_id rows) \<longrightarrow>
         Suc (length (snd (serve NoFault (DELETE_task i) rows))) = length rows)) \<and>
   (i \<notin> task_id ` set rows \<and> sqlite_integer i \<longrightarrow>
      serve NoFault (DELETE_task i) rows = (Inl HTTP_404_NOT_FOUND, rows)) \<and>
   (i \<notin> task_id ` set rows \<and> \<not> sqlite_integer i \<longrightarrow>
      serve NoFault (DELETE_task i) rows = (Inl HTTP_500_INTERNAL_SERVER_ERROR, rows))"
proof (intro conjI impI)
  assume a: "i \<notin> task_id ` set rows \<and> sqlite_integer i"
  then have "find (\<lambda>t. task_id t = i) rows = None" by (simp add: find_task_none)
  with a show "serve NoFault (DELETE_task i) rows = (Inl HTTP_404_NOT_FOUND, rows)"
    by (simp add: delete_task_rows)
next
  assume a: "i \<notin> task_id ` set rows \<and> \<not> sqlite_integer i"
  then have "find (\<lambda>t. task_id t = i) rows = None" by (simp add: find_task_none)
  with a show "serve NoFault (DELETE_task i) rows = (Inl HTTP_500_INTERNAL_SERVER_ERROR, rows)"
    by (simp add: delete_task_rows)
next
  assume i: "i \<in> task_id ` set rows"
  then obtain t where "find (\<lambda>t. task_id t = i) rows = Some t" using find_some by blast
  then show d: "serve NoFault (DELETE_task i) rows
      = (Inr No_content, filter (\<lambda>r. task_id r \<noteq> i) rows)"
    by (simp add: delete_task_rows)
  {
    assume "sqlite_integer i"
    then show "fst (serve NoFault (GET_task i) (snd (serve NoFault (DELETE_task i) rows)))
        = Inl HTTP_404_NOT_FOUND"
      by (simp only: d snd_conv) (simp add: get_task_rows find_remove)
  }
  assume "distinct (map task_id rows)"
  with i show "Suc (length (snd (serve NoFault (DELETE_task i) rows))) = length rows"
    by (simp only: d snd_conv length_remove)
qed

lemma delete_task_by_id_example:
  "serve NoFault (DELETE_task 1) [milk, tea] = (Inr No_content, [tea]) \<and>
   fst (serve NoFault (GET_task 1) [tea]) = Inl HTTP_404_NOT_FOUND \<and>
   serve NoFault (DELETE_task 3) [milk, tea] = (Inl HTTP_404_NOT_FOUND, [milk, tea])"
  using delete_task_by_id [of 1 "[milk, tea]"] delete_task_by_id [of 3 "[milk, tea]"]
  by (simp add: delete_task_rows get_task_rows sqlite_integer_def milk_def tea_def)

text \<open>
  C5. Deleting a task that exists removes exactly that row, and deleting when no persisted
  task has the id fails with not-found rather than succeeding, the stored set unchanged. The
  code misses the not-found at an id outside the 64-bit range of the id column: no persisted
  task has the id \<open>2 ^ 63\<close>, the lookup of \<^verbatim>\<open>delete_task\<close> raises with no storage failure,
  and the answer is the server error where the claim and the handler's own not-found branch
  say not-found. The table is unchanged. It is the defect of get-one, in the same lookup.
\<close>

theorem delete_task_out_of_range:
  "2 ^ 63 \<notin> task_id ` set [milk, tea] \<and>
   serve NoFault (DELETE_task (2 ^ 63)) [milk, tea]
     = (Inl HTTP_500_INTERNAL_SERVER_ERROR, [milk, tea])"
  by (simp add: delete_task_rows sqlite_integer_def milk_def tea_def)

section \<open>Updating\<close>

text \<open>
  C1. An update of an existing task applies exactly the fields the request sets and leaves
  every other field, the id and every other row as they were; the answer is the updated
  record. In particular a request that sets only \<^verbatim>\<open>completed\<close> leaves the title and the
  description of the task as they were before.
\<close>

theorem update_task_merges:
  "distinct (map task_id rows) \<Longrightarrow> t \<in> set rows \<Longrightarrow>
   serve NoFault (PUT_task (task_id t) u) rows =
      (Inr (One_task
         \<lparr>task_id = task_id t,
          title = (case update_title u of None \<Rightarrow> title t | Some v \<Rightarrow> v),
          description = (case update_description u of None \<Rightarrow> description t | Some v \<Rightarrow> v),
          completed = (case update_completed u of None \<Rightarrow> completed t | Some v \<Rightarrow> v)\<rparr>),
       map (\<lambda>r. if r = t then
         \<lparr>task_id = task_id t,
          title = (case update_title u of None \<Rightarrow> title t | Some v \<Rightarrow> v),
          description = (case update_description u of None \<Rightarrow> description t | Some v \<Rightarrow> v),
          completed = (case update_completed u of None \<Rightarrow> completed t | Some v \<Rightarrow> v)\<rparr>
         else r) rows) \<and>
   serve NoFault (PUT_task (task_id t)
           \<lparr>update_title = None, update_description = None, update_completed = Some c\<rparr>) rows =
      (Inr (One_task (t\<lparr>completed := c\<rparr>)), map (\<lambda>r. if r = t then t\<lparr>completed := c\<rparr> else r) rows)"
proof -
  assume d: "distinct (map task_id rows)" and t: "t \<in> set rows"
  have f: "find (\<lambda>r. task_id r = task_id t) rows = Some t"
    using d t by (rule find_distinct)
  note eq = replace_by_row [OF d t]
  have a: "serve NoFault (PUT_task (task_id t) u) rows =
      (Inr (One_task
         \<lparr>task_id = task_id t,
          title = (case update_title u of None \<Rightarrow> title t | Some v \<Rightarrow> v),
          description = (case update_description u of None \<Rightarrow> description t | Some v \<Rightarrow> v),
          completed = (case update_completed u of None \<Rightarrow> completed t | Some v \<Rightarrow> v)\<rparr>),
       map (\<lambda>r. if r = t then
         \<lparr>task_id = task_id t,
          title = (case update_title u of None \<Rightarrow> title t | Some v \<Rightarrow> v),
          description = (case update_description u of None \<Rightarrow> description t | Some v \<Rightarrow> v),
          completed = (case update_completed u of None \<Rightarrow> completed t | Some v \<Rightarrow> v)\<rparr>
         else r) rows)"
    by (simp add: update_task_rows f eq) (simp add: merged_def)
  have "merged \<lparr>update_title = None, update_description = None, update_completed = Some c\<rparr> t
      = t\<lparr>completed := c\<rparr>"
    by (simp add: merged_def)
  then have b: "serve NoFault (PUT_task (task_id t)
           \<lparr>update_title = None, update_description = None, update_completed = Some c\<rparr>) rows =
      (Inr (One_task (t\<lparr>completed := c\<rparr>)), map (\<lambda>r. if r = t then t\<lparr>completed := c\<rparr> else r) rows)"
    by (simp add: update_task_rows f eq)
  from a b show ?thesis by (rule conjI)
qed

theorem update_task_merges_witness:
  "serve NoFault (PUT_task 1
      \<lparr>update_title = None, update_description = None, update_completed = Some True\<rparr>) [milk, tea]
    = (Inr (One_task \<lparr>task_id = 1, title = ''Buy milk'', description = None, completed = True\<rparr>),
       [\<lparr>task_id = 1, title = ''Buy milk'', description = None, completed = True\<rparr>, tea])"
  using update_task_merges [of "[milk, tea]" milk
      "\<lparr>update_title = None, update_description = None, update_completed = Some True\<rparr>" True]
  by (simp add: milk_def tea_def)

text \<open>
  C9. Applying the same update to the same id twice in succession leaves the same table
  and gives the same answer as applying it once, under every storage failure; and with no
  failure the update of an existing id answers with a record.
\<close>

theorem update_task_idempotent:
  "serve f (PUT_task i u) (snd (serve f (PUT_task i u) rows)) = serve f (PUT_task i u) rows \<and>
   (i \<in> task_id ` set rows \<longrightarrow> (\<exists>t. fst (serve NoFault (PUT_task i u) rows) = Inr (One_task t)))"
proof (cases "find (\<lambda>t. task_id t = i) rows")
  case None
  then have "i \<notin> task_id ` set rows" by (simp add: find_task_none)
  with None show ?thesis by (simp add: update_task_rows)
next
  case (Some t)
  have ti: "task_id t = i" using Some by (rule find_task_id [THEN conjunct2])
  have m: "task_id (merged u t) = i" using ti by (simp add: merged_def)
  have mm: "merged u (merged u t) = merged u t"
    by (simp add: merged_def split: option.splits)
  let ?rows' = "map (\<lambda>r. if task_id r = i then merged u t else r) rows"
  have f': "find (\<lambda>r. task_id r = i) ?rows' = Some (merged u t)"
    by (simp add: find_replace [OF m] Some)
  have again: "map (\<lambda>r. if task_id r = i then merged u t else r) ?rows' = ?rows'"
    using m by (induction rows) auto
  have one: "serve f (PUT_task i u) rows =
      (if f = AtQuery \<or> f = AtCommit then (Inl HTTP_500_INTERNAL_SERVER_ERROR, rows)
       else if f = AtRefresh then (Inl HTTP_500_INTERNAL_SERVER_ERROR, ?rows')
       else (Inr (One_task (merged u t)), ?rows'))"
    by (simp add: update_task_rows Some)
  have two: "serve f (PUT_task i u) ?rows' =
      (if f = AtQuery \<or> f = AtCommit then (Inl HTTP_500_INTERNAL_SERVER_ERROR, ?rows')
       else if f = AtRefresh then (Inl HTTP_500_INTERNAL_SERVER_ERROR, ?rows')
       else (Inr (One_task (merged u t)), ?rows'))"
    by (simp add: update_task_rows f' mm again)
  have "serve f (PUT_task i u) (snd (serve f (PUT_task i u) rows)) = serve f (PUT_task i u) rows"
  proof (cases "f = AtQuery \<or> f = AtCommit")
    case True
    then have "snd (serve f (PUT_task i u) rows) = rows" by (simp only: one) simp
    then show ?thesis by (simp only:)
  next
    case False
    then have "snd (serve f (PUT_task i u) rows) = ?rows'" by (simp only: one) simp
    then have "serve f (PUT_task i u) (snd (serve f (PUT_task i u) rows))
        = serve f (PUT_task i u) ?rows'" by (simp only:)
    also have "\<dots> = serve f (PUT_task i u) rows" using False by (simp only: one two) simp
    finally show ?thesis .
  qed
  moreover have "\<exists>t. fst (serve NoFault (PUT_task i u) rows) = Inr (One_task t)"
    by (simp add: update_task_rows Some)
  ultimately show ?thesis by blast
qed

theorem update_task_idempotent_witness:
  "serve NoFault (PUT_task 1 \<lparr>update_title = Some ''Oat milk'', update_description = None,
       update_completed = Some True\<rparr>)
     (snd (serve NoFault (PUT_task 1 \<lparr>update_title = Some ''Oat milk'', update_description = None,
       update_completed = Some True\<rparr>) [milk, tea]))
   = (Inr (One_task \<lparr>task_id = 1, title = ''Oat milk'', description = None, completed = True\<rparr>),
      [\<lparr>task_id = 1, title = ''Oat milk'', description = None, completed = True\<rparr>, tea])"
  using update_task_idempotent [of NoFault 1 "\<lparr>update_title = Some ''Oat milk'',
       update_description = None, update_completed = Some True\<rparr>" "[milk, tea]"]
  by (simp add: update_task_rows merged_def milk_def tea_def)

section \<open>Storage failures\<close>

text \<open>
  When the lookup or the commit of a mutating operation raises, the session is rolled back
  before the server error is answered and the table after the failed operation is the table
  before it; every request answered with an error leaves the table unchanged unless the
  exception came from the refresh after the commit.
\<close>

lemma failed_mutation_rolled_back:
  "(f \<noteq> AtRefresh \<and> fst (serve f r rows) = Inl e \<longrightarrow> snd (serve f r rows) = rows) \<and>
   create_task AtCommit td (SessionLocal rows) = (Inl HTTP_500_INTERNAL_SERVER_ERROR, SessionLocal rows) \<and>
   (validate_TaskCreate body = Inr td \<longrightarrow>
      serve AtCommit (POST_tasks body) rows = (Inl HTTP_500_INTERNAL_SERVER_ERROR, rows)) \<and>
   serve AtQuery (PUT_task i u) rows = (Inl HTTP_500_INTERNAL_SERVER_ERROR, rows) \<and>
   serve AtQuery (DELETE_task i) rows = (Inl HTTP_500_INTERNAL_SERVER_ERROR, rows) \<and>
   (i \<in> task_id ` set rows \<longrightarrow>
      update_task AtCommit i u (SessionLocal rows)
        = (Inl HTTP_500_INTERNAL_SERVER_ERROR, SessionLocal rows) \<and>
      delete_task AtCommit i (SessionLocal rows)
        = (Inl HTTP_500_INTERNAL_SERVER_ERROR, SessionLocal rows) \<and>
      serve AtCommit (PUT_task i u) rows = (Inl HTTP_500_INTERNAL_SERVER_ERROR, rows) \<and>
      serve AtCommit (DELETE_task i) rows = (Inl HTTP_500_INTERNAL_SERVER_ERROR, rows))"
proof (intro conjI impI)
  assume "f \<noteq> AtRefresh \<and> fst (serve f r rows) = Inl e"
  then show "snd (serve f r rows) = rows" using failed_unchanged by blast
next
  show "create_task AtCommit td (SessionLocal rows)
      = (Inl HTTP_500_INTERNAL_SERVER_ERROR, SessionLocal rows)"
    by (simp add: create_task_def SessionLocal_def db_add_def db_commit_def db_rollback_def)
next
  assume "validate_TaskCreate body = Inr td"
  then show "serve AtCommit (POST_tasks body) rows = (Inl HTTP_500_INTERNAL_SERVER_ERROR, rows)"
    by (simp add: create_task_rows)
next
  show "serve AtQuery (PUT_task i u) rows = (Inl HTTP_500_INTERNAL_SERVER_ERROR, rows)"
    by (simp add: update_task_rows)
next
  show "serve AtQuery (DELETE_task i) rows = (Inl HTTP_500_INTERNAL_SERVER_ERROR, rows)"
    by (simp add: delete_task_rows)
next
  assume "i \<in> task_id ` set rows"
  then obtain t where f: "find (\<lambda>t. task_id t = i) rows = Some t" using find_some by blast
  show "update_task AtCommit i u (SessionLocal rows)
        = (Inl HTTP_500_INTERNAL_SERVER_ERROR, SessionLocal rows)"
    unfolding update_task_def SessionLocal_def query_first_def db_add_def db_commit_def
      db_rollback_def Let_def
    by (simp add: f)
  show "delete_task AtCommit i (SessionLocal rows)
        = (Inl HTTP_500_INTERNAL_SERVER_ERROR, SessionLocal rows)"
    unfolding delete_task_def SessionLocal_def query_first_def db_delete_def db_commit_def
      db_rollback_def Let_def
    by (simp add: f)
  show "serve AtCommit (PUT_task i u) rows = (Inl HTTP_500_INTERNAL_SERVER_ERROR, rows)"
    by (simp add: update_task_rows f)
  show "serve AtCommit (DELETE_task i) rows = (Inl HTTP_500_INTERNAL_SERVER_ERROR, rows)"
    by (simp add: delete_task_rows f)
qed

lemma failed_mutation_rolled_back_example:
  "serve AtCommit (PUT_task 2 \<lparr>update_title = Some ''Chai'', update_description = None,
       update_completed = None\<rparr>) [milk, tea] = (Inl HTTP_500_INTERNAL_SERVER_ERROR, [milk, tea]) \<and>
   serve AtCommit (DELETE_task 2) [milk, tea] = (Inl HTTP_500_INTERNAL_SERVER_ERROR, [milk, tea]) \<and>
   serve AtCommit (POST_tasks \<lparr>body_title = Some ''Jam'', body_description = None,
       body_completed = None\<rparr>) [milk, tea] = (Inl HTTP_500_INTERNAL_SERVER_ERROR, [milk, tea])"
  using failed_mutation_rolled_back [of AtCommit "DELETE_task 2" "[milk, tea]"
      HTTP_500_INTERNAL_SERVER_ERROR
      "\<lparr>create_title = ''Jam'', create_description = None, create_completed = False\<rparr>"
      "\<lparr>body_title = Some ''Jam'', body_description = None, body_completed = None\<rparr>"
      2 "\<lparr>update_title = Some ''Chai'', update_description = None, update_completed = None\<rparr>"]
  by (simp add: validate_TaskCreate_def update_task_rows delete_task_rows create_task_rows milk_def tea_def)

text \<open>
  The refresh stands after the commit inside the same \<^verbatim>\<open>try\<close>: when it raises, the write
  is committed already, the roll-back of the \<^verbatim>\<open>except\<close> branch undoes nothing, and the
  server error is answered over a table that has changed. So it is for every valid create
  and for every update of an existing task.
\<close>

lemma refresh_failure_commits:
  "(validate_TaskCreate body = Inr td \<longrightarrow>
      serve AtRefresh (POST_tasks body) rows
        = (Inl HTTP_500_INTERNAL_SERVER_ERROR, rows @ [new_row rows td])) \<and>
   (find (\<lambda>t. task_id t = i) rows = Some t \<longrightarrow>
      serve AtRefresh (PUT_task i u) rows
        = (Inl HTTP_500_INTERNAL_SERVER_ERROR,
           map (\<lambda>r. if task_id r = i then merged u t else r) rows))"
  by (simp add: create_task_rows update_task_rows)

text \<open>
  C6. For every mutating operation, an exception raised during the storage unit is rolled
  back before the error response, so that the persisted state after the failed operation
  equals the state before it. The code misses this where the refresh after a successful
  commit raises: \<^verbatim>\<open>create_task\<close> on the empty table answers with the server error and the
  row is persisted, and \<^verbatim>\<open>update_task\<close> answers with the server error and the new title
  is persisted.
\<close>

theorem refresh_failure_keeps_write:
  "serve AtRefresh (POST_tasks \<lparr>body_title = Some ''Buy milk'', body_description = None,
       body_completed = None\<rparr>) [] = (Inl HTTP_500_INTERNAL_SERVER_ERROR, [milk]) \<and>
   [milk] \<noteq> [] \<and>
   serve AtRefresh (PUT_task 1 \<lparr>update_title = Some ''Oat milk'', update_description = None,
       update_completed = None\<rparr>) [milk]
     = (Inl HTTP_500_INTERNAL_SERVER_ERROR, [milk\<lparr>title := ''Oat milk''\<rparr>]) \<and>
   [milk\<lparr>title := ''Oat milk''\<rparr>] \<noteq> [milk]"
  by (simp add: validate_TaskCreate_def create_task_rows update_task_rows new_row_def merged_def
      next_id_def milk_def)

section \<open>Sequences of requests: the invariant and the listing\<close>




text \<open>
  C8. After any sequence of requests on the empty table in which no refresh fails, the
  list operation returns exactly the tasks that were created and not deleted, each once and
  each with the fields last written to it: the set of the listed tasks is the range of
  \<open>spec_written\<close>, which holds every task under its own id.
\<close>

theorem list_is_what_was_written:
  "\<forall>fr \<in> set frs. fst fr \<noteq> AtRefresh \<Longrightarrow>
   (\<exists>tasks. serve NoFault GET_tasks (run frs []) = (Inr (Task_list tasks), run frs []) \<and>
      set tasks = ran (spec_written (trace frs [])) \<and> distinct tasks) \<and>
   (\<forall>j t. spec_written (trace frs []) j = Some t \<longrightarrow> task_id t = j)"
proof -
  assume fs: "\<forall>fr \<in> set frs. fst fr \<noteq> AtRefresh"
  have ag: "spec_written (trace frs []) j = find (\<lambda>t. task_id t = j) (run frs [])" for j
    unfolding spec_written_def using fs by (rule written_run_agrees) simp
  have d: "distinct (map task_id (run frs []))" by (rule run_distinct) simp
  have "set (run frs []) = ran (spec_written (trace frs []))"
  proof (intro set_eqI iffI)
    fix t assume "t \<in> set (run frs [])"
    with d have "find (\<lambda>r. task_id r = task_id t) (run frs []) = Some t" by (rule find_distinct)
    then have "spec_written (trace frs []) (task_id t) = Some t" by (simp only: ag)
    then show "t \<in> ran (spec_written (trace frs []))" by (rule ranI)
  next
    fix t assume "t \<in> ran (spec_written (trace frs []))"
    then obtain j where "spec_written (trace frs []) j = Some t" by (auto simp: ran_def)
    then have "find (\<lambda>t. task_id t = j) (run frs []) = Some t" by (simp only: ag)
    then show "t \<in> set (run frs [])" by (rule find_task_id [THEN conjunct1])
  qed
  moreover from d have "distinct (run frs [])" by (simp add: distinct_map)
  moreover have "serve NoFault GET_tasks (run frs []) = (Inr (Task_list (run frs [])), run frs [])"
    by (simp add: get_tasks_rows)
  moreover have "\<forall>j t. spec_written (trace frs []) j = Some t \<longrightarrow> task_id t = j"
  proof (intro allI impI)
    fix j t assume "spec_written (trace frs []) j = Some t"
    then have "find (\<lambda>t. task_id t = j) (run frs []) = Some t" by (simp only: ag)
    then show "task_id t = j" by (rule find_task_id [THEN conjunct2])
  qed
  ultimately show ?thesis by blast
qed

theorem list_is_what_was_written_witness:
  "serve NoFault GET_tasks (run some_requests []) = (Inr (Task_list [milk, tea]), [milk, tea]) \<and>
   ran (spec_written (trace some_requests [])) = {milk, tea}"
proof -
  have h: "\<forall>fr \<in> set some_requests. fst fr \<noteq> AtRefresh"
    by (simp add: some_requests_def)
  from list_is_what_was_written [OF h] obtain tasks
    where a: "serve NoFault GET_tasks (run some_requests [])
        = (Inr (Task_list tasks), run some_requests [])"
      and b: "set tasks = ran (spec_written (trace some_requests []))"
    by blast
  from a have "tasks = [milk, tea]" by (simp add: run_some_requests get_tasks_rows)
  with a b show ?thesis by (simp add: run_some_requests)
qed

end
